theory Spec2Isabelle
  imports Main "HOL-Library.Word"
begin

unbundle bit_operations_syntax

section \<open>The Windows OS layer of the database engine (os\_win.c)\<close>

subsection \<open>Result codes, lock levels and the reserved byte map\<close>

text \<open>
  Modelled from the spec: the header with the result codes is not among the sources. The
  code only returns the codes by name, so they are the constructors of a datatype.
\<close>

datatype result_code = SQLITE_OK | SQLITE_BUSY | SQLITE_IOERR | SQLITE_FULL | SQLITE_CANTOPEN

text \<open>
  Modelled from the spec: os.h, which defines the lock levels, is not among the sources.
  The spec orders them \<open>NONE < SHARED < RESERVED < PENDING < EXCLUSIVE\<close>; the code keeps
  a level in an \<open>int\<close> and compares levels with \<open><\<close>, \<open>>=\<close> and \<open>==\<close>, so the levels are
  the integers 0 to 4 in that order.
\<close>

definition NO_LOCK :: int where "NO_LOCK = 0"
definition SHARED_LOCK :: int where "SHARED_LOCK = 1"
definition RESERVED_LOCK :: int where "RESERVED_LOCK = 2"
definition PENDING_LOCK :: int where "PENDING_LOCK = 3"
definition EXCLUSIVE_LOCK :: int where "EXCLUSIVE_LOCK = 4"

text \<open>
  The byte ranges used for locking (os\_win.c, lines 348 to 351). \<open>SHARED_SIZE\<close> is a
  plain literal; the three offsets are computed from \<open>0xffffffff\<close> in unsigned 32-bit
  arithmetic.
\<close>

definition SHARED_SIZE :: nat where "SHARED_SIZE = 10238"

definition SHARED_FIRST :: "32 word" where
  "SHARED_FIRST = 0xffffffff - of_nat SHARED_SIZE + 1"

definition RESERVED_BYTE :: "32 word" where
  "RESERVED_BYTE = SHARED_FIRST - 1"

definition PENDING_BYTE :: "32 word" where
  "PENDING_BYTE = RESERVED_BYTE - 1"

text \<open>The remainder operator of C truncates towards zero.\<close>

definition c_rem :: "int \<Rightarrow> int \<Rightarrow> int" where
  "c_rem a b = sgn a * (\<bar>a\<bar> mod \<bar>b\<bar>)"

subsection \<open>The file descriptor\<close>

text \<open>
  Modelled from the spec: the declaration of the structure (os\_win.h) is not among the
  sources. The code reads and writes the three fields \<open>h\<close>, \<open>locktype\<close> and
  \<open>sharedLockByte\<close>.
\<close>

type_synonym handle = nat

record OsFile =
  h :: handle
  locktype :: int
  sharedLockByte :: int

subsection \<open>The host\<close>

text \<open>
  The calls the layer makes to the host, with the arguments that vary. \<open>LockFile h off n\<close>
  is \<open>LockFile(h, off, 0, n, 0)\<close>; \<open>LockFileEx h off n\<close> is the non-blocking reader
  lock \<open>LockFileEx(h, LOCKFILE_FAIL_IMMEDIATELY, 0, n, 0, &ovlp)\<close> with \<open>ovlp.Offset = off\<close>;
  \<open>UnlockFile h off n\<close> is \<open>UnlockFile(h, off, 0, n, 0)\<close>; \<open>Randomness n\<close> is
  \<open>sqlite3Randomness(n, &lk)\<close>; \<open>ReadFile h amt\<close> and \<open>WriteFile h pos amt\<close> transfer
  \<open>amt\<close> bytes, the latter from position \<open>pos\<close> of the caller's buffer.
\<close>

datatype call =
    LockFile handle "32 word" "32 word"
  | LockFileEx handle "32 word" "32 word"
  | UnlockFile handle "32 word" "32 word"
  | Sleep nat
  | Randomness nat
  | ReadFile handle "32 word"
  | WriteFile handle nat "32 word"

text \<open>
  What a call gives back: its return value (a \<open>BOOL\<close>, zero for failure) and the 32-bit
  value it stores through its out parameter (the bytes read or written, or the random
  integer). A call with no result or no out parameter ignores the field.
\<close>

record reply =
  ret :: int
  out :: "32 word"

type_synonym event = "call \<times> reply"

text \<open>
  The host is outside the program: other processes take and drop locks between any two
  calls. Its answer to a call is therefore any function of the calls made so far.
  \<open>dwPlatformId\<close> is what \<open>GetVersionEx\<close> reports.
\<close>

record host =
  dwPlatformId :: "32 word"
  answer :: "event list \<Rightarrow> call \<Rightarrow> reply"

text \<open>The platform identifier of the NT family, a constant of the host's headers.\<close>

definition VER_PLATFORM_WIN32_NT :: "32 word" where
  "VER_PLATFORM_WIN32_NT = 2"

text \<open>
  The state of the process that the locking code touches: the calls made so far, with
  their replies, and the static variable \<open>osType\<close> of \<open>isNT\<close>
  (0 = unknown, 1 = win95, 2 = winNT).
\<close>

record world =
  trace :: "event list"
  osType :: int

definition hostcall :: "host \<Rightarrow> world \<Rightarrow> call \<Rightarrow> reply \<times> world" where
  "hostcall hst w c =
     (let r = answer hst (trace w) c in (r, w\<lparr>trace := trace w @ [(c, r)]\<rparr>))"

subsection \<open>Host-variant detection and the reader lock\<close>

definition isNT :: "host \<Rightarrow> world \<Rightarrow> bool \<times> world" where
  "isNT hst w =
     (let w' = (if osType w = 0
                then w\<lparr>osType := (if dwPlatformId hst = VER_PLATFORM_WIN32_NT then 2 else 1)\<rparr>
                else w)
      in (osType w' = 2, w'))"

definition getReadLock :: "host \<Rightarrow> world \<Rightarrow> handle \<Rightarrow> 32 word \<Rightarrow> 32 word \<Rightarrow> int \<times> world" where
  "getReadLock hst w hnd iByte nByte =
     (let (nt, w1) = isNT hst w in
      if nt then (let (r, w2) = hostcall hst w1 (LockFileEx hnd iByte nByte) in (ret r, w2))
      else (let (r, w2) = hostcall hst w1 (LockFile hnd iByte nByte) in (ret r, w2)))"

definition unlockReadLock :: "host \<Rightarrow> world \<Rightarrow> OsFile \<Rightarrow> int \<times> world" where
  "unlockReadLock hst w fd =
     (let (nt, w1) = isNT hst w in
      if nt then
        (let (r, w2) = hostcall hst w1 (UnlockFile (h fd) SHARED_FIRST (of_nat SHARED_SIZE))
         in (ret r, w2))
      else
        (let (r, w2) = hostcall hst w1
                         (UnlockFile (h fd) (SHARED_FIRST + word_of_int (sharedLockByte fd)) 1)
         in (ret r, w2)))"

subsection \<open>Acquiring a lock: sqlite3OsLock\<close>

text \<open>
  The loop \<open>while( cnt-->0 && (res = LockFile(id->h, PENDING_BYTE, 0, 1, 0))==0 ) Sleep(1);\<close>
  with \<open>cnt\<close> tries left and \<open>res\<close> the result so far.
\<close>

fun pending_loop :: "host \<Rightarrow> world \<Rightarrow> handle \<Rightarrow> nat \<Rightarrow> int \<Rightarrow> int \<times> world" where
  "pending_loop hst w hnd 0 res = (res, w)"
| "pending_loop hst w hnd (Suc cnt) res =
     (let (r, w1) = hostcall hst w (LockFile hnd PENDING_BYTE 1) in
      if ret r = 0
      then pending_loop hst (snd (hostcall hst w1 (Sleep 1))) hnd cnt (ret r)
      else (ret r, w1))"

text \<open>
  The four blocks of the function after its first test, in the order of the source, each
  starting from the value of \<open>res\<close> that the block before it left: the PENDING byte, the
  SHARED lock, the RESERVED lock, the EXCLUSIVE lock. The random integer \<open>lk\<close> is an \<open>int\<close>
  of four bytes; the byte index is computed on its signed value with C's remainder.
\<close>

definition lock_pending :: "host \<Rightarrow> world \<Rightarrow> OsFile \<Rightarrow> int \<Rightarrow> int \<times> world" where
  "lock_pending hst w fd lt =
     (if locktype fd = NO_LOCK \<or> lt = PENDING_LOCK
      then pending_loop hst w (h fd) 4 1
      else (1, w))"

definition lock_shared :: "host \<Rightarrow> world \<Rightarrow> OsFile \<Rightarrow> int \<Rightarrow> int \<Rightarrow> int \<times> OsFile \<times> world" where
  "lock_shared hst w fd lt res =
     (if lt \<ge> SHARED_LOCK \<and> locktype fd < SHARED_LOCK \<and> res \<noteq> 0 then
        let (nt, w1) = isNT hst w;
            (res', fd', w2) =
              (if nt then
                 (let (r, wa) = getReadLock hst w1 (h fd) SHARED_FIRST (of_nat SHARED_SIZE)
                  in (r, fd, wa))
               else
                 (let (lk, wa) = hostcall hst w1 (Randomness 4);
                      fd1 = fd\<lparr>sharedLockByte :=
                               c_rem (sint (out lk AND 0x7fffffff)) (int SHARED_SIZE - 1)\<rparr>;
                      (r, wb) = hostcall hst wa
                                  (LockFile (h fd1)
                                     (SHARED_FIRST + word_of_int (sharedLockByte fd1)) 1)
                  in (ret r, fd1, wb)));
            w3 = (if lt < PENDING_LOCK
                  then snd (hostcall hst w2 (UnlockFile (h fd') PENDING_BYTE 1))
                  else w2)
        in (res', fd', w3)
      else (res, fd, w))"

definition lock_reserved :: "host \<Rightarrow> world \<Rightarrow> OsFile \<Rightarrow> int \<Rightarrow> int \<Rightarrow> int \<times> world" where
  "lock_reserved hst w fd lt res =
     (if lt \<ge> RESERVED_LOCK \<and> locktype fd < RESERVED_LOCK \<and> res \<noteq> 0
      then getReadLock hst w (h fd) RESERVED_BYTE 1
      else (res, w))"

definition lock_exclusive :: "host \<Rightarrow> world \<Rightarrow> OsFile \<Rightarrow> int \<Rightarrow> int \<Rightarrow> int \<times> world" where
  "lock_exclusive hst w fd lt res =
     (if lt = EXCLUSIVE_LOCK then
        let (res1, w1) = (if locktype fd \<ge> SHARED_LOCK then unlockReadLock hst w fd
                          else (res, w))
        in if res1 \<noteq> 0
           then (let (r, w2) = hostcall hst w1
                                 (LockFile (h fd) SHARED_FIRST (of_nat SHARED_SIZE))
                 in (ret r, w2))
           else (0, w1)
      else (res, w))"

definition sqlite3OsLock :: "host \<Rightarrow> world \<Rightarrow> OsFile \<Rightarrow> int \<Rightarrow> result_code \<times> OsFile \<times> world" where
  "sqlite3OsLock hst w fd lt =
     (if locktype fd \<ge> lt then (SQLITE_OK, fd, w)
      else
        let (res1, w1) = lock_pending hst w fd lt;
            (res2, fd2, w2) = lock_shared hst w1 fd lt res1;
            (res3, w3) = lock_reserved hst w2 fd2 lt res2;
            (res4, w4) = lock_exclusive hst w3 fd2 lt res3
        in if res4 \<noteq> 0 then (SQLITE_OK, fd2\<lparr>locktype := lt\<rparr>, w4)
           else (SQLITE_BUSY, fd2, w4))"

subsection \<open>Checking for a write lock, and unlocking\<close>

definition sqlite3OsCheckWriteLock :: "host \<Rightarrow> world \<Rightarrow> OsFile \<Rightarrow> int \<times> world" where
  "sqlite3OsCheckWriteLock hst w fd =
     (let (rc, w') =
            (if locktype fd \<ge> RESERVED_LOCK then (1, w)
             else
               let (rc, w1) = getReadLock hst w (h fd) RESERVED_BYTE 1 in
               if rc \<noteq> 0
               then (rc, snd (hostcall hst w1 (UnlockFile (h fd) RESERVED_BYTE 1)))
               else (rc, w1))
      in (0, w'))"

definition sqlite3OsUnlock :: "host \<Rightarrow> world \<Rightarrow> OsFile \<Rightarrow> result_code \<times> OsFile \<times> world" where
  "sqlite3OsUnlock hst w fd =
     (let w1 = (if locktype fd \<ge> EXCLUSIVE_LOCK
                then snd (hostcall hst w (UnlockFile (h fd) SHARED_FIRST (of_nat SHARED_SIZE)))
                else w);
          w2 = (if locktype fd \<ge> PENDING_LOCK
                then snd (hostcall hst w1 (UnlockFile (h fd) PENDING_BYTE 1))
                else w1);
          w3 = (if locktype fd \<ge> RESERVED_LOCK
                then snd (hostcall hst w2 (UnlockFile (h fd) RESERVED_BYTE 1))
                else w2);
          w4 = (if locktype fd = SHARED_LOCK
                then snd (unlockReadLock hst w3 fd)
                else w3)
      in (SQLITE_OK, fd\<lparr>locktype := NO_LOCK\<rparr>, w4))"

subsection \<open>Reading and writing\<close>

text \<open>
  Modelled from the spec: \<open>SimulateIOError\<close> is a macro of os\_common.h, which is not among
  the sources; the spec describes it as a test hook that can force an operation to return
  IOERR. It is the parameter \<open>sim\<close>: true when the hook fires, and the function then
  returns the macro's argument at once; false always in a build without the hook.

  \<open>amt\<close> is the \<open>int\<close> argument as its 32 bits, so that \<open>(DWORD)amt\<close> is \<open>amt\<close> itself. When
  \<open>ReadFile\<close> fails, \<open>got\<close> is set to 0. The contents of the buffer are not modelled.
\<close>

definition sqlite3OsRead :: "bool \<Rightarrow> host \<Rightarrow> world \<Rightarrow> OsFile \<Rightarrow> 32 word \<Rightarrow> result_code \<times> world" where
  "sqlite3OsRead sim hst w fd amt =
     (if sim then (SQLITE_IOERR, w)
      else
        let (r, w1) = hostcall hst w (ReadFile (h fd) amt);
            got = (if ret r = 0 then 0 else out r)
        in if got = amt then (SQLITE_OK, w1) else (SQLITE_IOERR, w1))"

text \<open>
  The loop of \<open>sqlite3OsWrite\<close>. A host that reports more bytes written than it was asked
  for can keep \<open>amt\<close> positive for ever, so the loop is a partial function: \<open>None\<close> is a
  loop that does not end. \<open>rc\<close> and \<open>wrote\<close> are the locals of the same names, \<open>pos\<close> is
  how far \<open>pBuf\<close> has moved.
\<close>

partial_function (option) write_loop ::
  "host \<Rightarrow> world \<Rightarrow> handle \<Rightarrow> nat \<Rightarrow> 32 word \<Rightarrow> int \<Rightarrow> 32 word
     \<Rightarrow> (32 word \<times> int \<times> 32 word \<times> world) option" where
  "write_loop hst w hnd pos amt rc wrote =
     (if 0 <s amt then
        let (r, w1) = hostcall hst w (WriteFile hnd pos amt) in
        if ret r \<noteq> 0 \<and> 0 < out r
        then write_loop hst w1 hnd (pos + unat (out r)) (amt - out r) (ret r) (out r)
        else Some (amt, ret r, out r, w1)
      else Some (amt, rc, wrote, w))"

text \<open>
  The locals \<open>rc\<close> and \<open>wrote\<close> are declared without an initial value; \<open>rc0\<close> and
  \<open>wrote0\<close> are whatever they hold when the function starts.
\<close>

definition sqlite3OsWrite ::
  "bool \<Rightarrow> host \<Rightarrow> world \<Rightarrow> OsFile \<Rightarrow> 32 word \<Rightarrow> int \<Rightarrow> 32 word \<Rightarrow> (result_code \<times> world) option" where
  "sqlite3OsWrite sim hst w fd amt rc0 wrote0 =
     (if sim then Some (SQLITE_IOERR, w)
      else
        case write_loop hst w (h fd) 0 amt rc0 wrote0 of
          None \<Rightarrow> None
        | Some (amt', rc, wrote, w') \<Rightarrow>
            if rc = 0 \<or> wrote <s amt' then Some (SQLITE_FULL, w') else Some (SQLITE_OK, w'))"

subsection \<open>Sequences of lock and unlock operations\<close>

datatype lock_op = Lock int | Unlock

fun apply_op :: "host \<Rightarrow> world \<Rightarrow> OsFile \<Rightarrow> lock_op \<Rightarrow> result_code \<times> OsFile \<times> world" where
  "apply_op hst w fd (Lock lt) = sqlite3OsLock hst w fd lt"
| "apply_op hst w fd Unlock = sqlite3OsUnlock hst w fd"

text \<open>
  The history of a sequence of operations on one descriptor: for each operation, the
  level the descriptor held before it and the level it holds after it.
\<close>

fun run_ops :: "host \<Rightarrow> world \<Rightarrow> OsFile \<Rightarrow> lock_op list \<Rightarrow> (lock_op \<times> int \<times> int) list" where
  "run_ops hst w fd [] = []"
| "run_ops hst w fd (x # xs) =
     (let (rc, fd', w') = apply_op hst w fd x
      in (x, locktype fd, locktype fd') # run_ops hst w' fd' xs)"

subsection \<open>Notions the properties are stated in\<close>

text \<open>The events a call added to the trace.\<close>

definition new_events :: "world \<Rightarrow> world \<Rightarrow> event list" where
  "new_events w w' = drop (length (trace w)) (trace w')"

text \<open>
  One try for the PENDING byte, and the trace after a try that failed: the try with the
  host's answer, then the sleep of one millisecond.
\<close>

definition pending_try :: "handle \<Rightarrow> call" where
  "pending_try hnd = LockFile hnd PENDING_BYTE 1"

definition failed_try :: "host \<Rightarrow> handle \<Rightarrow> event list \<Rightarrow> event list" where
  "failed_try hst hnd t =
     (let t1 = t @ [(pending_try hnd, answer hst t (pending_try hnd))]
      in t1 @ [(Sleep 1, answer hst t1 (Sleep 1))])"

text \<open>The call by which \<open>unlockReadLock\<close> releases the reader lock of a descriptor.\<close>

definition read_lock_release :: "host \<Rightarrow> world \<Rightarrow> OsFile \<Rightarrow> call" where
  "read_lock_release hst w fd =
     (if fst (isNT hst w) then UnlockFile (h fd) SHARED_FIRST (of_nat SHARED_SIZE)
      else UnlockFile (h fd) (SHARED_FIRST + word_of_int (sharedLockByte fd)) 1)"

text \<open>
  The byte ranges a trace leaves locked, as the host's own answers tell: a lock call that
  was granted adds its range, an unlock call that was granted removes it.
\<close>

type_synonym range = "32 word \<times> 32 word"

fun track :: "event \<Rightarrow> range list \<Rightarrow> range list" where
  "track (LockFile hnd off n, r) rs = (if ret r = 0 then rs else (off, n) # rs)"
| "track (LockFileEx hnd off n, r) rs = (if ret r = 0 then rs else (off, n) # rs)"
| "track (UnlockFile hnd off n, r) rs = (if ret r = 0 then rs else remove1 (off, n) rs)"
| "track (c, r) rs = rs"

definition held :: "event list \<Rightarrow> range list" where
  "held tr = fold track tr []"

text \<open>
  The ranges a trace leaves locked that reach into the SHARED pool, which runs from
  \<open>SHARED_FIRST\<close> to the last offset \<open>0xffffffff\<close>; and the range of the reader lock of a
  descriptor, the one \<open>unlockReadLock\<close> releases.
\<close>

definition pool_locks :: "event list \<Rightarrow> range list" where
  "pool_locks tr = filter (\<lambda>(off, n). unat SHARED_FIRST < unat off + unat n) (held tr)"

definition read_lock_range :: "host \<Rightarrow> world \<Rightarrow> OsFile \<Rightarrow> range" where
  "read_lock_range hst w fd =
     (if fst (isNT hst w) then (SHARED_FIRST, of_nat SHARED_SIZE)
      else (SHARED_FIRST + word_of_int (sharedLockByte fd), 1))"

subsection \<open>Hosts and descriptors to evaluate on\<close>

text \<open>
  A host that grants every call (its random integer has every bit set, its transfers move
  five bytes), one that refuses every call, and one on which another reader sits in the
  SHARED pool, so that the exclusive lock on the whole pool is refused and every other call
  is granted.
\<close>

definition granted :: reply where
  "granted = \<lparr>ret = 1, out = 5\<rparr>"

definition refused :: reply where
  "refused = \<lparr>ret = 0, out = 0\<rparr>"

definition granting :: "event list \<Rightarrow> call \<Rightarrow> reply" where
  "granting tr c = (if c = Randomness 4 then \<lparr>ret = 1, out = 0xffffffff\<rparr> else granted)"

definition refusing :: "event list \<Rightarrow> call \<Rightarrow> reply" where
  "refusing tr c = refused"

definition reader_present :: "event list \<Rightarrow> call \<Rightarrow> reply" where
  "reader_present tr c =
     (if c = LockFile 7 SHARED_FIRST (of_nat SHARED_SIZE) then refused else granted)"

definition modern_host :: host where
  "modern_host = \<lparr>dwPlatformId = 2, answer = granting\<rparr>"

definition legacy_host :: host where
  "legacy_host = \<lparr>dwPlatformId = 1, answer = granting\<rparr>"

definition busy_host :: host where
  "busy_host = \<lparr>dwPlatformId = 2, answer = refusing\<rparr>"

definition contended_host :: host where
  "contended_host = \<lparr>dwPlatformId = 2, answer = reader_present\<rparr>"

definition world0 :: world where
  "world0 = \<lparr>trace = [], osType = 0\<rparr>"

definition file_at :: "int \<Rightarrow> OsFile" where
  "file_at lvl = \<lparr>h = 7, locktype = lvl, sharedLockByte = 0\<rparr>"

text \<open>
  The trace of \<open>lock(fd, RESERVED)\<close> from \<open>NO_LOCK\<close> on the granting modern host, and the
  trace after the \<open>unlock(fd)\<close> that follows it.
\<close>

definition reserved_trace :: "event list" where
  "reserved_trace =
     [(LockFile 7 PENDING_BYTE 1, granted),
      (LockFileEx 7 SHARED_FIRST (of_nat SHARED_SIZE), granted),
      (UnlockFile 7 PENDING_BYTE 1, granted),
      (LockFileEx 7 RESERVED_BYTE 1, granted)]"

definition unlocked_trace :: "event list" where
  "unlocked_trace = reserved_trace @ [(UnlockFile 7 RESERVED_BYTE 1, granted)]"

text \<open>
  The trace after \<open>lock(fd, SHARED)\<close> then follows, and the trace after a
  \<open>lock(fd, EXCLUSIVE)\<close> that the host refuses because another reader sits in the pool.
\<close>

definition reshared_trace :: "event list" where
  "reshared_trace =
     unlocked_trace @
     [(LockFile 7 PENDING_BYTE 1, granted),
      (LockFileEx 7 SHARED_FIRST (of_nat SHARED_SIZE), granted),
      (UnlockFile 7 PENDING_BYTE 1, granted)]"

definition refused_trace :: "event list" where
  "refused_trace =
     reshared_trace @
     [(LockFileEx 7 RESERVED_BYTE 1, granted),
      (UnlockFile 7 SHARED_FIRST (of_nat SHARED_SIZE), granted),
      (LockFile 7 SHARED_FIRST (of_nat SHARED_SIZE), refused)]"

section \<open>Properties\<close>

subsection \<open>Facts used throughout\<close>

lemmas lock_levels =
  NO_LOCK_def SHARED_LOCK_def RESERVED_LOCK_def PENDING_LOCK_def EXCLUSIVE_LOCK_def

lemmas byte_map = SHARED_SIZE_def SHARED_FIRST_def RESERVED_BYTE_def PENDING_BYTE_def

lemmas lock_blocks =
  sqlite3OsLock_def lock_pending_def lock_shared_def lock_reserved_def lock_exclusive_def
  getReadLock_def unlockReadLock_def isNT_def hostcall_def VER_PLATFORM_WIN32_NT_def

lemmas samples =
  granted_def refused_def granting_def refusing_def reader_present_def modern_host_def
  legacy_host_def busy_host_def contended_host_def world0_def file_at_def

lemma pending_loop_numeral:
  "pending_loop hst w hnd (numeral k) res =
     (let (r, w1) = hostcall hst w (LockFile hnd PENDING_BYTE 1) in
      if ret r = 0
      then pending_loop hst (snd (hostcall hst w1 (Sleep 1))) hnd (pred_numeral k) (ret r)
      else (ret r, w1))"
  by (simp add: numeral_eq_Suc)

lemma lock_shared_locktype:
  "lock_shared hst w fd lt res = (r, fd', w') \<Longrightarrow> locktype fd' = locktype fd \<and> h fd' = h fd"
  by (auto simp: lock_shared_def Let_def split: if_splits prod.splits)

lemma lock_step_level:
  "sqlite3OsLock hst w fd lt = (rc, fd', w') \<Longrightarrow>
     locktype fd' = locktype fd \<or> (locktype fd < lt \<and> locktype fd' = lt)"
  by (auto simp: sqlite3OsLock_def Let_def split: if_splits prod.splits
           dest: lock_shared_locktype)

lemma unlock_level:
  "sqlite3OsUnlock hst w fd = (rc, fd', w') \<Longrightarrow> locktype fd' = NO_LOCK \<and> rc = SQLITE_OK"
  by (auto simp: sqlite3OsUnlock_def Let_def)

lemma busy_from_shared:
  "sqlite3OsLock busy_host world0 (file_at SHARED_LOCK) EXCLUSIVE_LOCK =
     (SQLITE_BUSY, file_at SHARED_LOCK,
      \<lparr>trace = [(LockFileEx 7 RESERVED_BYTE 1, refused),
                (UnlockFile 7 SHARED_FIRST (of_nat SHARED_SIZE), refused)],
       osType = 2\<rparr>)"
  by (simp add: lock_blocks samples lock_levels Let_def)

subsection \<open>A lock at or below the level held\<close>

text \<open>
  C5. For every descriptor and every level, \<open>lock(fd, level)\<close> with
  \<open>level \<le> fd.locktype\<close> returns OK and does nothing: the descriptor is unchanged, and so is
  the state of the process, in which every host call would have been recorded.
\<close>

theorem lock_at_or_below_noop:
  "lt \<le> locktype fd \<Longrightarrow> sqlite3OsLock hst w fd lt = (SQLITE_OK, fd, w)"
  by (simp add: sqlite3OsLock_def)

theorem lock_at_or_below_noop_witness:
  "SHARED_LOCK \<le> locktype (file_at RESERVED_LOCK) \<and>
   sqlite3OsLock busy_host world0 (file_at RESERVED_LOCK) SHARED_LOCK
     = (SQLITE_OK, file_at RESERVED_LOCK, world0)"
  using lock_at_or_below_noop [of SHARED_LOCK "file_at RESERVED_LOCK" busy_host world0]
  by (simp add: file_at_def lock_levels)

subsection \<open>The level after a refused lock\<close>

text \<open>
  C9. Whenever \<open>sqlite3OsLock\<close> returns BUSY, the \<open>locktype\<close> field of the descriptor is the
  value it had when the call began, for every starting state and every requested level.
\<close>

theorem busy_keeps_locktype:
  "sqlite3OsLock hst w fd lt = (SQLITE_BUSY, fd', w') \<Longrightarrow> locktype fd' = locktype fd"
  by (auto simp: sqlite3OsLock_def Let_def split: if_splits prod.splits
           dest: lock_shared_locktype)

theorem busy_keeps_locktype_witness:
  "fst (sqlite3OsLock busy_host world0 (file_at SHARED_LOCK) EXCLUSIVE_LOCK) = SQLITE_BUSY \<and>
   locktype (fst (snd (sqlite3OsLock busy_host world0 (file_at SHARED_LOCK) EXCLUSIVE_LOCK)))
     = locktype (file_at SHARED_LOCK)"
  using busy_keeps_locktype [OF busy_from_shared] busy_from_shared by simp

subsection \<open>The level never decreases but through unlock\<close>

text \<open>
  C6. In every sequence of lock and unlock operations on a descriptor, under every host,
  each lock call leaves \<open>locktype\<close> as it was or raises it to the level asked for, and
  each unlock sets it to \<open>NO_LOCK\<close>: the level decreases through unlock only.
\<close>

theorem level_monotone_but_for_unlock:
  "\<forall>(x, before, after) \<in> set (run_ops hst w fd xs).
     (case x of Lock lt \<Rightarrow> after = before \<or> (before < lt \<and> after = lt)
              | Unlock \<Rightarrow> after = NO_LOCK)"
proof (induction xs arbitrary: w fd)
  case Nil
  show ?case by simp
next
  case (Cons x xs)
  obtain rc fd' w' where st: "apply_op hst w fd x = (rc, fd', w')"
    by (cases "apply_op hst w fd x") auto
  have first: "case x of
                 Lock lt \<Rightarrow> locktype fd' = locktype fd \<or> (locktype fd < lt \<and> locktype fd' = lt)
               | Unlock \<Rightarrow> locktype fd' = NO_LOCK"
    using st by (cases x) (auto dest: lock_step_level unlock_level)
  show ?case using first Cons.IH [of w' fd'] st by simp
qed

theorem level_monotone_but_for_unlock_witness:
  "run_ops modern_host world0 (file_at NO_LOCK) [Lock 2, Lock 1, Unlock]
     = [(Lock 2, 0, 2), (Lock 1, 2, 2), (Unlock, 2, 0)]"
  using level_monotone_but_for_unlock
          [of modern_host world0 "file_at NO_LOCK" "[Lock 2, Lock 1, Unlock]"]
  by (simp add: lock_blocks samples lock_levels sqlite3OsUnlock_def Let_def
                pending_loop_numeral)

subsection \<open>The write-intent check\<close>

text \<open>
  C1 says that \<open>check_reserved\<close> returns true when the descriptor holds RESERVED or higher
  and when the probe of the RESERVED byte fails. The function computes an answer in \<open>rc\<close>
  and then returns the constant 0: it returns false for every descriptor, host and state.
\<close>

theorem check_write_lock_returns_zero:
  "fst (sqlite3OsCheckWriteLock hst w fd) = 0"
  by (simp add: sqlite3OsCheckWriteLock_def Let_def split: prod.splits)

lemma check_write_lock_at_reserved:
  "sqlite3OsCheckWriteLock hst w (file_at RESERVED_LOCK) = (0, w)"
  by (simp add: sqlite3OsCheckWriteLock_def Let_def file_at_def)

subsection \<open>Unlocking\<close>

text \<open>
  Unlock always returns OK and sets the level to \<open>NO_LOCK\<close> (\<open>unlock_level\<close>), and it issues
  its releases in the order EXCLUSIVE region, PENDING byte, RESERVED byte, reader lock
  (\<open>unlock_calls\<close>). The reader lock is released at SHARED only: at RESERVED the function
  releases the RESERVED byte and nothing else.
\<close>

lemma unlock_at_reserved:
  "locktype fd = RESERVED_LOCK \<Longrightarrow>
   sqlite3OsUnlock hst w fd =
     (SQLITE_OK, fd\<lparr>locktype := NO_LOCK\<rparr>,
      w\<lparr>trace := trace w @ [(UnlockFile (h fd) RESERVED_BYTE 1,
                               answer hst (trace w) (UnlockFile (h fd) RESERVED_BYTE 1))]\<rparr>)"
  by (simp add: sqlite3OsUnlock_def hostcall_def lock_levels Let_def)

lemma unlock_calls:
  "sqlite3OsUnlock hst w fd = (rc, fd', w') \<Longrightarrow>
   map fst (new_events w w') =
     (if locktype fd \<ge> EXCLUSIVE_LOCK
      then [UnlockFile (h fd) SHARED_FIRST (of_nat SHARED_SIZE)] else []) @
     (if locktype fd \<ge> PENDING_LOCK then [UnlockFile (h fd) PENDING_BYTE 1] else []) @
     (if locktype fd \<ge> RESERVED_LOCK then [UnlockFile (h fd) RESERVED_BYTE 1] else []) @
     (if locktype fd = SHARED_LOCK then [read_lock_release hst w fd] else [])"
  by (auto simp: sqlite3OsUnlock_def unlockReadLock_def isNT_def hostcall_def new_events_def
                 read_lock_release_def lock_levels Let_def
           split: prod.splits)

text \<open>
  C3 says that unlock releases exactly the ranges the level shows the descriptor to hold,
  the SHARED range among them. A descriptor that went from \<open>NO_LOCK\<close> to RESERVED on a
  modern host that grants every call holds the reader lock on the SHARED pool and the
  RESERVED byte. Unlock releases the RESERVED byte only: when it returns, the level is
  \<open>NO_LOCK\<close> and the SHARED pool is still locked.
\<close>

theorem unlock_from_reserved_leaves_shared:
  "sqlite3OsLock modern_host world0 (file_at NO_LOCK) RESERVED_LOCK =
     (SQLITE_OK, file_at RESERVED_LOCK, \<lparr>trace = reserved_trace, osType = 2\<rparr>) \<and>
   held reserved_trace = [(RESERVED_BYTE, 1), (SHARED_FIRST, of_nat SHARED_SIZE)] \<and>
   sqlite3OsUnlock modern_host \<lparr>trace = reserved_trace, osType = 2\<rparr> (file_at RESERVED_LOCK) =
     (SQLITE_OK, file_at NO_LOCK, \<lparr>trace = unlocked_trace, osType = 2\<rparr>) \<and>
   held unlocked_trace = [(SHARED_FIRST, of_nat SHARED_SIZE)]"
proof (intro conjI)
  show "sqlite3OsLock modern_host world0 (file_at NO_LOCK) RESERVED_LOCK =
          (SQLITE_OK, file_at RESERVED_LOCK, \<lparr>trace = reserved_trace, osType = 2\<rparr>)"
    by (simp add: lock_blocks samples lock_levels reserved_trace_def Let_def
                  pending_loop_numeral)
  show "held reserved_trace = [(RESERVED_BYTE, 1), (SHARED_FIRST, of_nat SHARED_SIZE)]"
    by (simp add: held_def reserved_trace_def granted_def byte_map)
  show "sqlite3OsUnlock modern_host \<lparr>trace = reserved_trace, osType = 2\<rparr>
          (file_at RESERVED_LOCK) =
          (SQLITE_OK, file_at NO_LOCK, \<lparr>trace = unlocked_trace, osType = 2\<rparr>)"
    by (simp add: sqlite3OsUnlock_def hostcall_def samples lock_levels unlocked_trace_def
                  Let_def)
  show "held unlocked_trace = [(SHARED_FIRST, of_nat SHARED_SIZE)]"
    by (simp add: held_def unlocked_trace_def reserved_trace_def granted_def byte_map)
qed

subsection \<open>Writing no bytes\<close>

lemma write_loop_zero:
  "write_loop hst w hnd pos 0 rc wrote = Some (0, rc, wrote, w)"
  by (subst write_loop.simps) simp

text \<open>
  With a byte count of 0 the loop is not entered and no host call is made, whatever the
  hook does. Past the hook, the result is decided by the locals alone.
\<close>

lemma write_zero_no_host_call:
  "sqlite3OsWrite sim hst w fd 0 rc0 wrote0 = Some (rc, w') \<Longrightarrow> w' = w"
  by (auto simp: sqlite3OsWrite_def write_loop_zero split: if_splits)

lemma write_zero_result:
  "sqlite3OsWrite False hst w fd 0 rc0 wrote0 =
     Some (if rc0 = 0 \<or> wrote0 <s 0 then SQLITE_FULL else SQLITE_OK, w)"
  by (simp add: sqlite3OsWrite_def write_loop_zero)

text \<open>
  C10 says that \<open>write(fd, buf, 0)\<close> makes no host write call and returns OK. It makes no
  host call, but the test after the loop reads \<open>rc\<close> and \<open>wrote\<close>, which nothing has
  assigned: when \<open>rc\<close> starts as 0 the function returns FULL, for every host, state and
  descriptor.
\<close>

theorem write_zero_reads_unassigned_locals:
  "sqlite3OsWrite False hst w fd 0 0 wrote0 = Some (SQLITE_FULL, w)"
  by (simp add: sqlite3OsWrite_def write_loop_zero)

subsection \<open>Reading\<close>

lemma sint_nonneg_uint: "0 \<le> sint (x::32 word) \<Longrightarrow> sint x = uint x"
proof -
  assume nn: "0 \<le> sint x"
  have "sint x < 2 ^ 32" using sint_lt [of x] by simp
  then have "take_bit 32 (sint x) = sint x" using nn by (simp add: take_bit_int_eq_self)
  then show ?thesis using uint_sint [of x] by simp
qed

lemma sint_le_uint: "sint (x::32 word) \<le> uint x"
proof (cases "0 \<le> sint x")
  case True
  then show ?thesis by (simp add: sint_nonneg_uint)
next
  case False
  then have "sint x < 0" by simp
  also have "0 \<le> uint x" by simp
  finally show ?thesis by simp
qed

lemma unat_eq_sint: "int (unat (g::32 word)) = sint (a::32 word) \<Longrightarrow> g = a"
proof -
  assume e: "int (unat g) = sint a"
  then have "0 \<le> sint a" by (metis of_nat_0_le_iff)
  then have "sint a = uint a" by (rule sint_nonneg_uint)
  with e have "uint g = uint a" by simp
  then show "g = a" by (simp add: word_uint_eq_iff)
qed

lemma unat_less_sint: "int (unat (g::32 word)) < sint (a::32 word) \<Longrightarrow> g \<noteq> a"
  using sint_le_uint [of a] by auto

text \<open>
  C8. \<open>read(fd, buf, n)\<close> makes one host read call for \<open>n\<close> bytes. With \<open>got\<close> the number of
  bytes that call read (none when the call itself fails), the result is OK when \<open>got\<close> is
  exactly \<open>n\<close> and IOERR when \<open>got\<close> is less than \<open>n\<close>, as at the end of the file or after a
  failed host call; no other code is returned. When the simulated-error hook fires, no
  byte is read and the result is IOERR.
\<close>

theorem read_exactly_or_ioerr:
  assumes "sqlite3OsRead sim hst w fd amt = (rc, w')"
      and "r = answer hst (trace w) (ReadFile (h fd) amt)"
      and "got = (if ret r = 0 then 0 else out r)"
  shows "if sim then rc = SQLITE_IOERR \<and> w' = w
         else trace w' = trace w @ [(ReadFile (h fd) amt, r)] \<and>
              (int (unat got) = sint amt \<longrightarrow> rc = SQLITE_OK) \<and>
              (int (unat got) < sint amt \<longrightarrow> rc = SQLITE_IOERR) \<and>
              (rc = SQLITE_OK \<or> rc = SQLITE_IOERR)"
proof (cases sim)
  case True
  then show ?thesis using assms(1) by (simp add: sqlite3OsRead_def)
next
  case False
  have rc: "rc = (if got = amt then SQLITE_OK else SQLITE_IOERR)"
    and tr: "trace w' = trace w @ [(ReadFile (h fd) amt, r)]"
    using assms False by (auto simp: sqlite3OsRead_def hostcall_def Let_def split: if_splits)
  show ?thesis
    using False rc tr unat_eq_sint [of got amt] unat_less_sint [of got amt] by auto
qed

theorem read_exactly_or_ioerr_witness:
  "sqlite3OsRead False modern_host world0 (file_at NO_LOCK) 5 =
     (SQLITE_OK, \<lparr>trace = [(ReadFile 7 5, granted)], osType = 0\<rparr>) \<and>
   sqlite3OsRead False modern_host world0 (file_at NO_LOCK) 8 =
     (SQLITE_IOERR, \<lparr>trace = [(ReadFile 7 8, granted)], osType = 0\<rparr>) \<and>
   sqlite3OsRead False busy_host world0 (file_at NO_LOCK) 5 =
     (SQLITE_IOERR, \<lparr>trace = [(ReadFile 7 5, refused)], osType = 0\<rparr>)"
proof -
  obtain rc1 w1 where r1: "sqlite3OsRead False modern_host world0 (file_at NO_LOCK) 5 = (rc1, w1)"
    by (cases "sqlite3OsRead False modern_host world0 (file_at NO_LOCK) 5") auto
  obtain rc2 w2 where r2: "sqlite3OsRead False modern_host world0 (file_at NO_LOCK) 8 = (rc2, w2)"
    by (cases "sqlite3OsRead False modern_host world0 (file_at NO_LOCK) 8") auto
  obtain rc3 w3 where r3: "sqlite3OsRead False busy_host world0 (file_at NO_LOCK) 5 = (rc3, w3)"
    by (cases "sqlite3OsRead False busy_host world0 (file_at NO_LOCK) 5") auto
  have "rc1 = SQLITE_OK"
    using read_exactly_or_ioerr [OF r1 refl refl] by (simp add: samples)
  moreover have "rc2 = SQLITE_IOERR"
    using read_exactly_or_ioerr [OF r2 refl refl] by (simp add: samples)
  moreover have "rc3 = SQLITE_IOERR"
    using read_exactly_or_ioerr [OF r3 refl refl] by (simp add: samples)
  moreover have "w1 = \<lparr>trace = [(ReadFile 7 5, granted)], osType = 0\<rparr>"
    and "w2 = \<lparr>trace = [(ReadFile 7 8, granted)], osType = 0\<rparr>"
    and "w3 = \<lparr>trace = [(ReadFile 7 5, refused)], osType = 0\<rparr>"
    using r1 r2 r3 by (auto simp: sqlite3OsRead_def hostcall_def samples Let_def split: if_splits)
  ultimately show ?thesis using r1 r2 r3 by simp
qed

subsection \<open>A refused promotion to EXCLUSIVE\<close>

text \<open>
  Take any call \<open>lock(fd, EXCLUSIVE)\<close> on a descriptor at SHARED or above in which the
  host refuses the exclusive lock on the whole SHARED pool. The call returns BUSY and the
  descriptor is as it was, \<open>locktype\<close> included. The refused lock is the last host call of
  the function, and the call before it is the release of the descriptor's reader lock,
  which the host granted: nothing takes the reader lock back. Before the release the
  function made at most one call, the attempt on the RESERVED byte.
\<close>

lemma promotion_refused:
  assumes "SHARED_LOCK \<le> locktype fd"
      and "sqlite3OsLock hst w fd EXCLUSIVE_LOCK = (rc, fd', w')"
      and "(LockFile (h fd) SHARED_FIRST (of_nat SHARED_SIZE), r) \<in> set (new_events w w')"
      and "ret r = 0"
  shows "rc = SQLITE_BUSY \<and> locktype fd' = locktype fd \<and> fd' = fd \<and>
         (\<exists>pre u. trace w' = trace w @ pre @
                      [(read_lock_release hst w fd, u),
                       (LockFile (h fd) SHARED_FIRST (of_nat SHARED_SIZE), r)] \<and>
                  ret u \<noteq> 0 \<and> length pre \<le> 1 \<and>
                  (\<forall>e \<in> set pre. fst e = LockFileEx (h fd) RESERVED_BYTE 1 \<or>
                                  fst e = LockFile (h fd) RESERVED_BYTE 1))"
  using assms
  by (auto simp: lock_blocks new_events_def read_lock_release_def lock_levels Let_def
                 SHARED_SIZE_def
           split: if_splits prod.splits)

text \<open>
  What the handle holds afterwards. When, before the call, the only lock of the handle
  that reaches into the SHARED pool is the reader lock of the descriptor, the handle
  holds no lock in the pool after the call.
\<close>

lemma held_append: "held (tr @ es) = fold track es (held tr)"
  by (simp add: held_def)

lemma reserved_try_outside_pool:
  assumes "fst e = LockFileEx hnd RESERVED_BYTE 1 \<or> fst e = LockFile hnd RESERVED_BYTE 1"
  shows "filter (\<lambda>(off, n). unat SHARED_FIRST < unat off + unat n) (track e rs) =
         filter (\<lambda>(off, n). unat SHARED_FIRST < unat off + unat n) rs"
  using assms by (cases e) (auto simp: byte_map)

lemma promotion_refused_pool:
  assumes lvl: "SHARED_LOCK \<le> locktype fd"
      and run: "sqlite3OsLock hst w fd EXCLUSIVE_LOCK = (rc, fd', w')"
      and mem: "(LockFile (h fd) SHARED_FIRST (of_nat SHARED_SIZE), r) \<in> set (new_events w w')"
      and r0: "ret r = 0"
      and one: "pool_locks (trace w) = [read_lock_range hst w fd]"
  shows "pool_locks (trace w') = []"
proof -
  let ?P = "\<lambda>(off, n). unat SHARED_FIRST < unat off + unat n"
  obtain pre u where tr: "trace w' = trace w @ pre @
        [(read_lock_release hst w fd, u), (LockFile (h fd) SHARED_FIRST (of_nat SHARED_SIZE), r)]"
    and u: "ret u \<noteq> 0" and len: "length pre \<le> 1"
    and pre: "\<forall>e \<in> set pre. fst e = LockFileEx (h fd) RESERVED_BYTE 1 \<or>
                              fst e = LockFile (h fd) RESERVED_BYTE 1"
    using promotion_refused [OF lvl run mem r0] by blast
  have rel: "read_lock_release hst w fd =
               UnlockFile (h fd) (fst (read_lock_range hst w fd)) (snd (read_lock_range hst w fd))"
    by (simp add: read_lock_release_def read_lock_range_def)
  have before: "filter ?P (fold track pre (held (trace w))) = [read_lock_range hst w fd]"
  proof (cases pre)
    case Nil
    then show ?thesis using one by (simp add: pool_locks_def)
  next
    case (Cons e es)
    then have "es = []" using len by simp
    then show ?thesis
      using Cons pre one reserved_try_outside_pool [of e "h fd" "held (trace w)"]
      by (simp add: pool_locks_def)
  qed
  have "held (trace w') =
          remove1 (read_lock_range hst w fd) (fold track pre (held (trace w)))"
    unfolding tr using u r0 rel by (simp add: held_append)
  then have "pool_locks (trace w') =
               remove1 (read_lock_range hst w fd) (filter ?P (fold track pre (held (trace w))))"
    by (simp add: pool_locks_def filter_remove1)
  then show ?thesis using before by simp
qed

text \<open>
  C2 says that a call \<open>lock(fd, EXCLUSIVE)\<close> in which the host refuses the exclusive lock
  after the reader lock of the descriptor was released returns BUSY, leaves \<open>locktype\<close> as
  it was, and leaves the caller without any lock in the SHARED region. The first two hold
  (\<open>promotion_refused\<close>); the last holds when the handle held one reader lock
  (\<open>promotion_refused_pool\<close>). It fails after an unlock from RESERVED, which leaves the
  reader lock in place: the next \<open>lock(fd, SHARED)\<close> takes a second one, the promotion
  releases one of the two, and when the host refuses the exclusive lock the call returns
  BUSY with the SHARED region still locked by the handle.
\<close>

theorem promotion_refused_keeps_leaked_lock:
  "sqlite3OsLock contended_host world0 (file_at NO_LOCK) RESERVED_LOCK =
     (SQLITE_OK, file_at RESERVED_LOCK, \<lparr>trace = reserved_trace, osType = 2\<rparr>) \<and>
   sqlite3OsUnlock contended_host \<lparr>trace = reserved_trace, osType = 2\<rparr>
       (file_at RESERVED_LOCK) =
     (SQLITE_OK, file_at NO_LOCK, \<lparr>trace = unlocked_trace, osType = 2\<rparr>) \<and>
   sqlite3OsLock contended_host \<lparr>trace = unlocked_trace, osType = 2\<rparr>
       (file_at NO_LOCK) SHARED_LOCK =
     (SQLITE_OK, file_at SHARED_LOCK, \<lparr>trace = reshared_trace, osType = 2\<rparr>) \<and>
   sqlite3OsLock contended_host \<lparr>trace = reshared_trace, osType = 2\<rparr>
       (file_at SHARED_LOCK) EXCLUSIVE_LOCK =
     (SQLITE_BUSY, file_at SHARED_LOCK, \<lparr>trace = refused_trace, osType = 2\<rparr>) \<and>
   held refused_trace = [(RESERVED_BYTE, 1), (SHARED_FIRST, of_nat SHARED_SIZE)] \<and>
   pool_locks refused_trace = [(SHARED_FIRST, of_nat SHARED_SIZE)]"
proof (intro conjI)
  show "sqlite3OsLock contended_host world0 (file_at NO_LOCK) RESERVED_LOCK =
          (SQLITE_OK, file_at RESERVED_LOCK, \<lparr>trace = reserved_trace, osType = 2\<rparr>)"
    by (simp add: lock_blocks samples lock_levels reserved_trace_def SHARED_SIZE_def Let_def
                  pending_loop_numeral)
  show "sqlite3OsUnlock contended_host \<lparr>trace = reserved_trace, osType = 2\<rparr>
          (file_at RESERVED_LOCK) =
          (SQLITE_OK, file_at NO_LOCK, \<lparr>trace = unlocked_trace, osType = 2\<rparr>)"
    by (simp add: sqlite3OsUnlock_def hostcall_def samples lock_levels unlocked_trace_def
                  Let_def)
  show "sqlite3OsLock contended_host \<lparr>trace = unlocked_trace, osType = 2\<rparr>
          (file_at NO_LOCK) SHARED_LOCK =
          (SQLITE_OK, file_at SHARED_LOCK, \<lparr>trace = reshared_trace, osType = 2\<rparr>)"
    by (simp add: lock_blocks samples lock_levels reshared_trace_def SHARED_SIZE_def Let_def
                  pending_loop_numeral)
  show "sqlite3OsLock contended_host \<lparr>trace = reshared_trace, osType = 2\<rparr>
          (file_at SHARED_LOCK) EXCLUSIVE_LOCK =
          (SQLITE_BUSY, file_at SHARED_LOCK, \<lparr>trace = refused_trace, osType = 2\<rparr>)"
    by (simp add: lock_blocks samples lock_levels refused_trace_def Let_def)
  show "held refused_trace = [(RESERVED_BYTE, 1), (SHARED_FIRST, of_nat SHARED_SIZE)]"
    by (simp add: held_def refused_trace_def reshared_trace_def unlocked_trace_def
                  reserved_trace_def granted_def refused_def byte_map)
  then show "pool_locks refused_trace = [(SHARED_FIRST, of_nat SHARED_SIZE)]"
    by (simp add: pool_locks_def byte_map)
qed

subsection \<open>The byte of a legacy reader\<close>

lemma mask_nonneg:
  "sint ((lk::32 word) AND 0x7fffffff) = uint (lk AND 0x7fffffff)"
proof -
  have "lk AND 0x7fffffff \<le> 0x7fffffff" by (rule word_and_le1)
  then have "uint (lk AND 0x7fffffff) \<le> uint (0x7fffffff :: 32 word)"
    by (simp add: word_le_def)
  then have lt: "uint (lk AND 0x7fffffff) < 2 ^ 31" by simp
  have ge: "- (2 ^ 31) \<le> uint (lk AND 0x7fffffff)"
    by (rule order.trans [of _ 0]) simp_all
  show ?thesis
    using lt ge by (simp add: sint_uint signed_take_bit_int_eq_self)
qed

lemma c_rem_nonneg: "0 \<le> a \<Longrightarrow> 0 < b \<Longrightarrow> c_rem a b = a mod b"
  by (cases "a = 0") (simp_all add: c_rem_def)

lemma shared_byte:
  fixes lk :: "32 word"
  defines "b \<equiv> c_rem (sint (lk AND 0x7fffffff)) (int SHARED_SIZE - 1)"
  shows "b = int (unat (lk AND 0x7fffffff) mod (SHARED_SIZE - 1))"
    and "0 \<le> b" and "b \<le> int SHARED_SIZE - 2"
proof -
  have b: "b = uint (lk AND 0x7fffffff) mod 10237"
    unfolding b_def by (simp add: mask_nonneg c_rem_nonneg SHARED_SIZE_def)
  show "b = int (unat (lk AND 0x7fffffff) mod (SHARED_SIZE - 1))"
    using b by (simp add: SHARED_SIZE_def zmod_int)
  show "0 \<le> b" using b by simp
  have "b < 10237" using b by simp
  then show "b \<le> int SHARED_SIZE - 2" by (simp add: SHARED_SIZE_def)
qed

lemma shared_byte_offset:
  "0 \<le> b \<Longrightarrow> b \<le> int SHARED_SIZE - 2 \<Longrightarrow>
   unat (SHARED_FIRST + word_of_int b) = unat SHARED_FIRST + nat b"
proof -
  assume b: "0 \<le> b" "b \<le> int SHARED_SIZE - 2"
  have w: "(word_of_int b :: 32 word) = of_nat (nat b)" using b by simp
  have n: "nat b \<le> 10236" using b by (simp add: SHARED_SIZE_def)
  have u: "unat (of_nat (nat b) :: 32 word) = nat b"
    using n by (simp add: unat_of_nat)
  have f: "unat SHARED_FIRST = 4294957058" by (simp add: byte_map)
  have "unat SHARED_FIRST + unat (of_nat (nat b) :: 32 word) < 2 ^ LENGTH(32)"
    using u n f by simp
  then have "unat (SHARED_FIRST + of_nat (nat b)) = unat SHARED_FIRST + unat (of_nat (nat b) :: 32 word)"
    by (simp only: unat_add_lem)
  then show ?thesis unfolding w using u by simp
qed


lemma isNT_osType:
  "osType w1 = osType w \<Longrightarrow> fst (isNT hst w1) = fst (isNT hst w)"
  by (simp add: isNT_def Let_def)

lemma pending_loop_osType:
  "osType (snd (pending_loop hst w hnd n res)) = osType w"
  by (induction n arbitrary: w res) (auto simp: hostcall_def Let_def split: prod.splits)

lemma lock_pending_osType:
  "lock_pending hst w fd lt = (res, w1) \<Longrightarrow> osType w1 = osType w"
  using pending_loop_osType [of hst w "h fd" 4 1]
  by (auto simp: lock_pending_def split: if_splits)

lemma lock_reserved_ext:
  "lock_reserved hst w fd lt res = (r, w') \<Longrightarrow>
     \<exists>ev. trace w' = trace w @ ev \<and> (\<forall>e \<in> set ev. fst e \<noteq> pending_try (h fd))"
  by (auto simp: lock_reserved_def getReadLock_def isNT_def hostcall_def Let_def pending_try_def
                 byte_map
           split: if_splits prod.splits)

lemma lock_exclusive_ext:
  "lock_exclusive hst w fd lt res = (r, w') \<Longrightarrow>
     \<exists>ev. trace w' = trace w @ ev \<and> (\<forall>e \<in> set ev. fst e \<noteq> pending_try (h fd))"
  by (auto simp: lock_exclusive_def unlockReadLock_def isNT_def hostcall_def Let_def
                 pending_try_def SHARED_SIZE_def
           split: if_splits prod.splits)

lemma lock_shared_legacy:
  assumes "\<not> fst (isNT hst w)" and "locktype fd < SHARED_LOCK" and "SHARED_LOCK \<le> lt"
      and "res \<noteq> 0" and "lock_shared hst w fd lt res = (r, fd', w')"
  shows "sharedLockByte fd' =
           c_rem (sint (out (answer hst (trace w) (Randomness 4)) AND 0x7fffffff))
                 (int SHARED_SIZE - 1)"
    and "\<exists>a ev. trace w' = trace w @
                   [(Randomness 4, answer hst (trace w) (Randomness 4)),
                    (LockFile (h fd) (SHARED_FIRST + word_of_int (sharedLockByte fd')) 1, a)] @ ev"
  using assms
  by (auto simp: lock_shared_def isNT_def hostcall_def Let_def split: if_splits prod.splits)

text \<open>
  C7. On a legacy host, take a call \<open>lock(fd, target)\<close> with \<open>fd.locktype < SHARED\<close> and
  \<open>target \<ge> SHARED\<close> that reaches the SHARED step: the PENDING step before it left \<open>res\<close>
  non-zero (one of its tries was granted, or the step was skipped). With \<open>lk\<close> the integer
  the randomness source delivers there, the byte is
  \<open>b = (lk AND 0x7fffffff) mod (SHARED_SIZE - 1)\<close>: it is what the call leaves in
  \<open>sharedLockByte\<close>, it lies in \<open>0 .. SHARED_SIZE - 2\<close>, and the two host calls that follow
  the PENDING step are the draw and a one-byte \<open>LockFile\<close> at \<open>SHARED_FIRST + b\<close>, an offset
  that does not wrap around.
\<close>

theorem legacy_shared_byte:
  assumes legacy: "\<not> fst (isNT hst w)"
      and lvl: "locktype fd < SHARED_LOCK" "SHARED_LOCK \<le> lt"
      and pend: "lock_pending hst w fd lt = (res, w1)" "res \<noteq> 0"
      and run: "sqlite3OsLock hst w fd lt = (rc, fd', w')"
      and lk: "lk = out (answer hst (trace w1) (Randomness 4))"
      and b: "b = int (unat (lk AND 0x7fffffff) mod (SHARED_SIZE - 1))"
  shows "sharedLockByte fd' = b \<and> 0 \<le> b \<and> b \<le> int SHARED_SIZE - 2 \<and>
         unat (SHARED_FIRST + word_of_int b) = unat SHARED_FIRST + nat b \<and>
         (\<exists>x a rest. trace w' = trace w1 @
                        [(Randomness 4, x),
                         (LockFile (h fd) (SHARED_FIRST + word_of_int b) 1, a)] @ rest \<and>
                      out x = lk)"
proof -
  obtain res2 fd2 w2 where sh: "lock_shared hst w1 fd lt res = (res2, fd2, w2)"
    by (cases "lock_shared hst w1 fd lt res") auto
  obtain res3 w3 where rs: "lock_reserved hst w2 fd2 lt res2 = (res3, w3)"
    by (cases "lock_reserved hst w2 fd2 lt res2") auto
  obtain res4 w4 where ex: "lock_exclusive hst w3 fd2 lt res3 = (res4, w4)"
    by (cases "lock_exclusive hst w3 fd2 lt res3") auto
  have below: "\<not> lt \<le> locktype fd" using lvl by simp
  have out: "w' = w4" "sharedLockByte fd' = sharedLockByte fd2"
    using run below pend(1) sh rs ex
    by (auto simp: sqlite3OsLock_def Let_def split: if_splits)
  have legacy1: "\<not> fst (isNT hst w1)"
    using legacy isNT_osType [OF lock_pending_osType [OF pend(1)], of hst] by simp
  have byte: "sharedLockByte fd2 = c_rem (sint (lk AND 0x7fffffff)) (int SHARED_SIZE - 1)"
    using lock_shared_legacy(1) [OF legacy1 lvl pend(2) sh] lk by simp
  then have eq: "sharedLockByte fd2 = b"
    using shared_byte(1) [of lk] b by simp
  have lo: "0 \<le> b" and hi: "b \<le> int SHARED_SIZE - 2"
    using shared_byte(2,3) [of lk] byte eq by simp_all
  obtain a ev where t2: "trace w2 = trace w1 @
        [(Randomness 4, answer hst (trace w1) (Randomness 4)),
         (LockFile (h fd) (SHARED_FIRST + word_of_int b) 1, a)] @ ev"
    using lock_shared_legacy(2) [OF legacy1 lvl pend(2) sh] eq by auto
  obtain ev3 where t3: "trace w3 = trace w2 @ ev3"
    using lock_reserved_ext [OF rs] by auto
  obtain ev4 where t4: "trace w4 = trace w3 @ ev4"
    using lock_exclusive_ext [OF ex] by auto
  have tr: "trace w' = trace w1 @
        [(Randomness 4, answer hst (trace w1) (Randomness 4)),
         (LockFile (h fd) (SHARED_FIRST + word_of_int b) 1, a)] @ (ev @ ev3 @ ev4)"
    using out(1) t2 t3 t4 by simp
  show ?thesis
    using out(2) eq lo hi shared_byte_offset [OF lo hi] tr lk by blast
qed


lemma legacy_shared_run:
  "sqlite3OsLock legacy_host world0 (file_at NO_LOCK) SHARED_LOCK =
     (SQLITE_OK, \<lparr>h = 7, locktype = SHARED_LOCK, sharedLockByte = 6735\<rparr>,
      \<lparr>trace = [(LockFile 7 PENDING_BYTE 1, granted),
                (Randomness 4, \<lparr>ret = 1, out = 0xffffffff\<rparr>),
                (LockFile 7 (SHARED_FIRST + 6735) 1, granted),
                (UnlockFile 7 PENDING_BYTE 1, granted)],
       osType = 1\<rparr>)"
  by (simp add: lock_blocks samples lock_levels c_rem_def SHARED_SIZE_def Let_def
                pending_loop_numeral)

theorem legacy_shared_byte_witness:
  "\<not> fst (isNT legacy_host world0) \<and>
   lock_pending legacy_host world0 (file_at NO_LOCK) SHARED_LOCK =
     (1, \<lparr>trace = [(LockFile 7 PENDING_BYTE 1, granted)], osType = 0\<rparr>) \<and>
   sharedLockByte (fst (snd (sqlite3OsLock legacy_host world0 (file_at NO_LOCK) SHARED_LOCK)))
     = 6735 \<and>
   int (unat ((0xffffffff :: 32 word) AND 0x7fffffff) mod (SHARED_SIZE - 1)) = 6735"
proof -
  have legacy: "\<not> fst (isNT legacy_host world0)"
    by (simp add: isNT_def samples VER_PLATFORM_WIN32_NT_def Let_def)
  have lvl: "locktype (file_at NO_LOCK) < SHARED_LOCK" "SHARED_LOCK \<le> SHARED_LOCK"
    by (simp_all add: file_at_def lock_levels)
  have pend: "lock_pending legacy_host world0 (file_at NO_LOCK) SHARED_LOCK =
                (1, \<lparr>trace = [(LockFile 7 PENDING_BYTE 1, granted)], osType = 0\<rparr>)"
    by (simp add: lock_pending_def hostcall_def samples lock_levels Let_def
                  pending_loop_numeral)
  have nz: "(1::int) \<noteq> 0" by simp
  have lk: "(0xffffffff :: 32 word) =
              out (answer legacy_host
                     (trace \<lparr>trace = [(LockFile 7 PENDING_BYTE 1, granted)], osType = 0\<rparr>)
                     (Randomness 4))"
    by (simp add: samples)
  have b: "int (unat ((0xffffffff :: 32 word) AND 0x7fffffff) mod (SHARED_SIZE - 1)) = 6735"
    by (simp add: SHARED_SIZE_def)
  show ?thesis
    using legacy_shared_byte [OF legacy lvl pend nz legacy_shared_run lk b [symmetric]]
          legacy pend b legacy_shared_run
    by simp
qed

subsection \<open>The tries for the PENDING byte\<close>

lemma pending_loop_ext:
  "\<exists>ev. trace (snd (pending_loop hst w hnd n res)) = trace w @ ev \<and>
        length (filter (\<lambda>e. fst e = pending_try hnd) ev) \<le> n"
proof (induction n arbitrary: w res)
  case 0
  show ?case by simp
next
  case (Suc n)
  let ?r = "answer hst (trace w) (pending_try hnd)"
  let ?w1 = "w\<lparr>trace := trace w @ [(pending_try hnd, ?r)]\<rparr>"
  let ?w2 = "snd (hostcall hst ?w1 (Sleep 1))"
  show ?case
  proof (cases "ret ?r = 0")
    case False
    then have "trace (snd (pending_loop hst w hnd (Suc n) res)) = trace w @ [(pending_try hnd, ?r)]"
      by (simp add: hostcall_def Let_def pending_try_def)
    then show ?thesis by (intro exI [of _ "[(pending_try hnd, ?r)]"]) simp
  next
    case True
    then have step: "pending_loop hst w hnd (Suc n) res = pending_loop hst ?w2 hnd n (ret ?r)"
      by (simp add: hostcall_def Let_def pending_try_def)
    obtain ev where ev: "trace (snd (pending_loop hst ?w2 hnd n (ret ?r))) = trace ?w2 @ ev"
        "length (filter (\<lambda>e. fst e = pending_try hnd) ev) \<le> n"
      using Suc.IH [of ?w2 "ret ?r"] by auto
    have t2: "trace ?w2 = trace w @ [(pending_try hnd, ?r), (Sleep 1, answer hst (trace ?w1) (Sleep 1))]"
      by (simp add: hostcall_def Let_def)
    show ?thesis
      unfolding step
      by (intro exI [of _ "[(pending_try hnd, ?r), (Sleep 1, answer hst (trace ?w1) (Sleep 1))] @ ev"])
         (use ev t2 in \<open>simp add: pending_try_def\<close>)
  qed
qed

lemma pending_loop_first:
  "\<exists>rest. trace (snd (pending_loop hst w hnd (Suc n) res)) =
            trace w @ (pending_try hnd, answer hst (trace w) (pending_try hnd)) # rest"
proof -
  let ?r = "answer hst (trace w) (pending_try hnd)"
  let ?w1 = "w\<lparr>trace := trace w @ [(pending_try hnd, ?r)]\<rparr>"
  let ?w2 = "snd (hostcall hst ?w1 (Sleep 1))"
  show ?thesis
  proof (cases "ret ?r = 0")
    case False
    then show ?thesis by (simp add: hostcall_def Let_def pending_try_def)
  next
    case True
    then have step: "pending_loop hst w hnd (Suc n) res = pending_loop hst ?w2 hnd n (ret ?r)"
      by (simp add: hostcall_def Let_def pending_try_def)
    obtain ev where "trace (snd (pending_loop hst ?w2 hnd n (ret ?r))) = trace ?w2 @ ev"
      using pending_loop_ext [of hst ?w2 hnd n "ret ?r"] by auto
    then show ?thesis unfolding step by (simp add: hostcall_def Let_def)
  qed
qed

lemma pending_loop_all_fail:
  assumes "ret (answer hst (trace w) (pending_try hnd)) = 0"
      and "ret (answer hst (failed_try hst hnd (trace w)) (pending_try hnd)) = 0"
      and "ret (answer hst ((failed_try hst hnd ^^ 2) (trace w)) (pending_try hnd)) = 0"
      and "ret (answer hst ((failed_try hst hnd ^^ 3) (trace w)) (pending_try hnd)) = 0"
  shows "pending_loop hst w hnd 4 1 = (0, w\<lparr>trace := (failed_try hst hnd ^^ 4) (trace w)\<rparr>)"
  using assms
  by (simp add: eval_nat_numeral hostcall_def failed_try_def pending_try_def Let_def)


lemma shared_byte_not_pending:
  "SHARED_FIRST + word_of_int (c_rem (sint ((lk::32 word) AND 0x7fffffff)) (int SHARED_SIZE - 1))
     \<noteq> PENDING_BYTE"
proof
  let ?b = "c_rem (sint (lk AND 0x7fffffff)) (int SHARED_SIZE - 1)"
  assume "SHARED_FIRST + word_of_int ?b = PENDING_BYTE"
  then have "unat SHARED_FIRST + nat ?b = unat PENDING_BYTE"
    using shared_byte_offset [OF shared_byte(2,3), of lk] by simp
  then show False by (simp add: byte_map)
qed

lemma lock_shared_ext:
  "lock_shared hst w fd lt res = (r, fd', w') \<Longrightarrow>
     \<exists>ev. trace w' = trace w @ ev \<and> (\<forall>e \<in> set ev. fst e \<noteq> pending_try (h fd))"
  by (auto simp: lock_shared_def getReadLock_def isNT_def hostcall_def Let_def pending_try_def
                 shared_byte_not_pending
           split: if_splits prod.splits)

lemma pending_loop_shape:
  "\<exists>k. k \<le> n \<and>
     (\<forall>i<k. ret (answer hst ((failed_try hst hnd ^^ i) (trace w)) (pending_try hnd)) = 0) \<and>
     (k = n \<longrightarrow>
        pending_loop hst w hnd n res =
          (if n = 0 then res else 0, w\<lparr>trace := (failed_try hst hnd ^^ n) (trace w)\<rparr>)) \<and>
     (k < n \<longrightarrow>
        ret (answer hst ((failed_try hst hnd ^^ k) (trace w)) (pending_try hnd)) \<noteq> 0 \<and>
        pending_loop hst w hnd n res =
          (ret (answer hst ((failed_try hst hnd ^^ k) (trace w)) (pending_try hnd)),
           w\<lparr>trace := (failed_try hst hnd ^^ k) (trace w) @
                        [(pending_try hnd,
                          answer hst ((failed_try hst hnd ^^ k) (trace w)) (pending_try hnd))]\<rparr>))"
proof (induction n arbitrary: w res)
  case 0
  show ?case by simp
next
  case (Suc n)
  let ?r = "answer hst (trace w) (pending_try hnd)"
  let ?w2 = "w\<lparr>trace := failed_try hst hnd (trace w)\<rparr>"
  show ?case
  proof (cases "ret ?r = 0")
    case False
    then have "pending_loop hst w hnd (Suc n) res =
                 (ret ?r, w\<lparr>trace := trace w @ [(pending_try hnd, ?r)]\<rparr>)"
      by (simp add: hostcall_def Let_def pending_try_def)
    with False show ?thesis
      by (intro exI [of _ 0]) simp
  next
    case True
    then have step: "pending_loop hst w hnd (Suc n) res = pending_loop hst ?w2 hnd n 0"
      by (simp add: hostcall_def Let_def pending_try_def failed_try_def)
    obtain k where k: "k \<le> n"
      and refused: "\<forall>i<k. ret (answer hst ((failed_try hst hnd ^^ i) (trace ?w2))
                                 (pending_try hnd)) = 0"
      and all: "k = n \<longrightarrow>
          pending_loop hst ?w2 hnd n 0 =
            (0, ?w2\<lparr>trace := (failed_try hst hnd ^^ n) (trace ?w2)\<rparr>)"
      and some: "k < n \<longrightarrow>
          ret (answer hst ((failed_try hst hnd ^^ k) (trace ?w2)) (pending_try hnd)) \<noteq> 0 \<and>
          pending_loop hst ?w2 hnd n 0 =
            (ret (answer hst ((failed_try hst hnd ^^ k) (trace ?w2)) (pending_try hnd)),
             ?w2\<lparr>trace := (failed_try hst hnd ^^ k) (trace ?w2) @
                   [(pending_try hnd,
                     answer hst ((failed_try hst hnd ^^ k) (trace ?w2)) (pending_try hnd))]\<rparr>)"
      using Suc.IH [of ?w2 0] by (auto split: if_splits)
    have refused': "\<forall>i<Suc k. ret (answer hst ((failed_try hst hnd ^^ i) (trace w))
                                 (pending_try hnd)) = 0"
    proof (intro allI impI)
      fix i assume "i < Suc k"
      then show "ret (answer hst ((failed_try hst hnd ^^ i) (trace w)) (pending_try hnd)) = 0"
        using True refused by (cases i) (auto simp: funpow_swap1)
    qed
    show ?thesis
      unfolding step
      by (intro exI [of _ "Suc k"]) (use k refused' all some in \<open>auto simp: funpow_swap1\<close>)
  qed
qed

lemma lock_after_failed_pending:
  assumes "locktype fd < lt" and "locktype fd = NO_LOCK \<or> lt = PENDING_LOCK"
      and "lock_pending hst w fd lt = (0, w1)"
  shows "sqlite3OsLock hst w fd lt = (SQLITE_BUSY, fd, w1)"
  using assms
  by (auto simp: sqlite3OsLock_def lock_shared_def lock_reserved_def lock_exclusive_def
                 lock_levels Let_def)

lemma lock_trace_after_pending:
  assumes up: "locktype fd < lt"
      and pend: "lock_pending hst w fd lt = (res1, w1)"
      and run: "sqlite3OsLock hst w fd lt = (rc, fd', w')"
  shows "\<exists>ev. trace w' = trace w1 @ ev \<and> (\<forall>e \<in> set ev. fst e \<noteq> pending_try (h fd))"
proof -
  obtain res2 fd2 w2 where sh: "lock_shared hst w1 fd lt res1 = (res2, fd2, w2)"
    by (cases "lock_shared hst w1 fd lt res1") auto
  obtain res3 w3 where rs: "lock_reserved hst w2 fd2 lt res2 = (res3, w3)"
    by (cases "lock_reserved hst w2 fd2 lt res2") auto
  obtain res4 w4 where ex: "lock_exclusive hst w3 fd2 lt res3 = (res4, w4)"
    by (cases "lock_exclusive hst w3 fd2 lt res3") auto
  have below: "\<not> lt \<le> locktype fd" using up by simp
  have w': "w' = w4"
    using run below pend sh rs ex by (auto simp: sqlite3OsLock_def Let_def split: if_splits)
  have hfd: "h fd2 = h fd" using lock_shared_locktype [OF sh] by simp
  obtain e2 where e2: "trace w2 = trace w1 @ e2" "\<forall>e \<in> set e2. fst e \<noteq> pending_try (h fd)"
    using lock_shared_ext [OF sh] by auto
  obtain e3 where e3: "trace w3 = trace w2 @ e3" "\<forall>e \<in> set e3. fst e \<noteq> pending_try (h fd)"
    using lock_reserved_ext [OF rs] hfd by auto
  obtain e4 where e4: "trace w4 = trace w3 @ e4" "\<forall>e \<in> set e4. fst e \<noteq> pending_try (h fd)"
    using lock_exclusive_ext [OF ex] hfd by auto
  show ?thesis
    by (intro exI [of _ "e2 @ e3 @ e4"]) (use w' e2 e3 e4 in auto)
qed

text \<open>
  C4 says that every call \<open>lock(fd, target)\<close> with \<open>fd.locktype = NONE\<close> or
  \<open>target = PENDING\<close> tries for the PENDING byte. A call whose target is not above the
  level held returns OK before any try: here the target is PENDING, the descriptor is at
  EXCLUSIVE, the host refuses every call, and the call returns OK with no host call made.
\<close>

theorem pending_prelock_counterexample:
  "locktype (file_at EXCLUSIVE_LOCK) \<noteq> NO_LOCK \<and>
   sqlite3OsLock busy_host world0 (file_at EXCLUSIVE_LOCK) PENDING_LOCK =
     (SQLITE_OK, file_at EXCLUSIVE_LOCK, world0) \<and>
   new_events world0 world0 = []"
  by (simp add: sqlite3OsLock_def file_at_def new_events_def lock_levels)

text \<open>
  C4, amended. For every call \<open>lock(fd, target)\<close> with \<open>target > fd.locktype\<close> and with
  \<open>fd.locktype = NONE\<close> or \<open>target = PENDING\<close>, the implementation attempts a one-byte
  exclusive host lock on \<open>PENDING_BYTE\<close>, retrying up to 4 times with a sleep of 1 ms
  between tries, and when all attempts fail the call returns BUSY with no further
  acquisition step performed.

  In the theorem: the first host call of the function is the try. Its trace begins with
  \<open>k \<le> 4\<close> tries that the host refused, each followed by a sleep of 1 ms. When \<open>k = 4\<close>
  nothing follows, the result is BUSY and the descriptor is unchanged. When \<open>k < 4\<close> the
  next call is a try that the host granted, and the byte is not tried again after it.
  When the host refuses the four tries, the call returns BUSY, leaves the descriptor as
  it was, and has made no host call but the four tries and their sleeps.
\<close>

theorem pending_prelock:
  assumes up: "locktype fd < lt"
      and gate: "locktype fd = NO_LOCK \<or> lt = PENDING_LOCK"
      and run: "sqlite3OsLock hst w fd lt = (rc, fd', w')"
  shows "(\<exists>rest. trace w' =
            trace w @ (pending_try (h fd), answer hst (trace w) (pending_try (h fd))) # rest) \<and>
         (\<exists>k rest. k \<le> 4 \<and> trace w' = (failed_try hst (h fd) ^^ k) (trace w) @ rest \<and>
            (\<forall>i<k. ret (answer hst ((failed_try hst (h fd) ^^ i) (trace w))
                              (pending_try (h fd))) = 0) \<and>
            (k = 4 \<longrightarrow> rest = [] \<and> rc = SQLITE_BUSY \<and> fd' = fd) \<and>
            (k < 4 \<longrightarrow>
               ret (answer hst ((failed_try hst (h fd) ^^ k) (trace w))
                      (pending_try (h fd))) \<noteq> 0 \<and>
               (\<exists>rest'. rest = (pending_try (h fd),
                                 answer hst ((failed_try hst (h fd) ^^ k) (trace w))
                                   (pending_try (h fd))) # rest' \<and>
                        (\<forall>e \<in> set rest'. fst e \<noteq> pending_try (h fd))))) \<and>
         (ret (answer hst (trace w) (pending_try (h fd))) = 0 \<and>
          ret (answer hst (failed_try hst (h fd) (trace w)) (pending_try (h fd))) = 0 \<and>
          ret (answer hst ((failed_try hst (h fd) ^^ 2) (trace w)) (pending_try (h fd))) = 0 \<and>
          ret (answer hst ((failed_try hst (h fd) ^^ 3) (trace w)) (pending_try (h fd))) = 0
          \<longrightarrow> rc = SQLITE_BUSY \<and> fd' = fd \<and>
              w' = w\<lparr>trace := (failed_try hst (h fd) ^^ 4) (trace w)\<rparr>)"
proof -
  obtain res1 w1 where pend: "lock_pending hst w fd lt = (res1, w1)"
    by (cases "lock_pending hst w fd lt") auto
  have loop: "pending_loop hst w (h fd) 4 1 = (res1, w1)"
    using pend gate by (auto simp: lock_pending_def)
  obtain ev where ev: "trace w' = trace w1 @ ev" "\<forall>e \<in> set ev. fst e \<noteq> pending_try (h fd)"
    using lock_trace_after_pending [OF up pend run] by auto
  have first: "\<exists>rest. trace w' =
      trace w @ (pending_try (h fd), answer hst (trace w) (pending_try (h fd))) # rest"
    using pending_loop_first [of hst w "h fd" 3 1] loop ev(1) by (auto simp: eval_nat_numeral)
  obtain k where k: "k \<le> 4"
    and refused: "\<forall>i<k. ret (answer hst ((failed_try hst (h fd) ^^ i) (trace w))
                               (pending_try (h fd))) = 0"
    and all: "k = 4 \<longrightarrow>
               pending_loop hst w (h fd) 4 1 =
                 (0, w\<lparr>trace := (failed_try hst (h fd) ^^ 4) (trace w)\<rparr>)"
    and some: "k < 4 \<longrightarrow>
               ret (answer hst ((failed_try hst (h fd) ^^ k) (trace w))
                      (pending_try (h fd))) \<noteq> 0 \<and>
               pending_loop hst w (h fd) 4 1 =
                 (ret (answer hst ((failed_try hst (h fd) ^^ k) (trace w)) (pending_try (h fd))),
                  w\<lparr>trace := (failed_try hst (h fd) ^^ k) (trace w) @
                       [(pending_try (h fd),
                         answer hst ((failed_try hst (h fd) ^^ k) (trace w))
                           (pending_try (h fd)))]\<rparr>)"
    using pending_loop_shape [of 4 hst "h fd" w 1] by auto
  have shape: "\<exists>k rest. k \<le> 4 \<and> trace w' = (failed_try hst (h fd) ^^ k) (trace w) @ rest \<and>
            (\<forall>i<k. ret (answer hst ((failed_try hst (h fd) ^^ i) (trace w))
                              (pending_try (h fd))) = 0) \<and>
            (k = 4 \<longrightarrow> rest = [] \<and> rc = SQLITE_BUSY \<and> fd' = fd) \<and>
            (k < 4 \<longrightarrow>
               ret (answer hst ((failed_try hst (h fd) ^^ k) (trace w))
                      (pending_try (h fd))) \<noteq> 0 \<and>
               (\<exists>rest'. rest = (pending_try (h fd),
                                 answer hst ((failed_try hst (h fd) ^^ k) (trace w))
                                   (pending_try (h fd))) # rest' \<and>
                        (\<forall>e \<in> set rest'. fst e \<noteq> pending_try (h fd))))"
  proof (cases "k = 4")
    case True
    then have p0: "lock_pending hst w fd lt =
                     (0, w\<lparr>trace := (failed_try hst (h fd) ^^ 4) (trace w)\<rparr>)"
      using all loop pend by simp
    have "sqlite3OsLock hst w fd lt =
            (SQLITE_BUSY, fd, w\<lparr>trace := (failed_try hst (h fd) ^^ 4) (trace w)\<rparr>)"
      by (rule lock_after_failed_pending [OF up gate p0])
    then show ?thesis
      using run refused True by (intro exI [of _ 4] exI [of _ "[]"]) auto
  next
    case False
    then have less: "k < 4" using k by simp
    let ?r = "answer hst ((failed_try hst (h fd) ^^ k) (trace w)) (pending_try (h fd))"
    have t1: "trace w1 = (failed_try hst (h fd) ^^ k) (trace w) @ [(pending_try (h fd), ?r)]"
      and nz: "ret ?r \<noteq> 0"
      using some less loop by auto
    show ?thesis
      using k less refused nz t1 ev
      by (intro exI [of _ k] exI [of _ "(pending_try (h fd), ?r) # ev"]) auto
  qed
  have allfail: "ret (answer hst (trace w) (pending_try (h fd))) = 0 \<and>
          ret (answer hst (failed_try hst (h fd) (trace w)) (pending_try (h fd))) = 0 \<and>
          ret (answer hst ((failed_try hst (h fd) ^^ 2) (trace w)) (pending_try (h fd))) = 0 \<and>
          ret (answer hst ((failed_try hst (h fd) ^^ 3) (trace w)) (pending_try (h fd))) = 0
          \<longrightarrow> rc = SQLITE_BUSY \<and> fd' = fd \<and>
              w' = w\<lparr>trace := (failed_try hst (h fd) ^^ 4) (trace w)\<rparr>"
  proof
    assume a: "ret (answer hst (trace w) (pending_try (h fd))) = 0 \<and>
          ret (answer hst (failed_try hst (h fd) (trace w)) (pending_try (h fd))) = 0 \<and>
          ret (answer hst ((failed_try hst (h fd) ^^ 2) (trace w)) (pending_try (h fd))) = 0 \<and>
          ret (answer hst ((failed_try hst (h fd) ^^ 3) (trace w)) (pending_try (h fd))) = 0"
    have "pending_loop hst w (h fd) 4 1 =
            (0, w\<lparr>trace := (failed_try hst (h fd) ^^ 4) (trace w)\<rparr>)"
      using a by (intro pending_loop_all_fail) simp_all
    then have p0: "lock_pending hst w fd lt =
            (0, w\<lparr>trace := (failed_try hst (h fd) ^^ 4) (trace w)\<rparr>)"
      using loop pend by simp
    show "rc = SQLITE_BUSY \<and> fd' = fd \<and>
              w' = w\<lparr>trace := (failed_try hst (h fd) ^^ 4) (trace w)\<rparr>"
      using lock_after_failed_pending [OF up gate p0] run by simp
  qed
  show ?thesis using first shape allfail by blast
qed

lemma four_failed_tries:
  "(failed_try busy_host 7 ^^ 4) [] =
     [(LockFile 7 PENDING_BYTE 1, refused), (Sleep 1, refused),
      (LockFile 7 PENDING_BYTE 1, refused), (Sleep 1, refused),
      (LockFile 7 PENDING_BYTE 1, refused), (Sleep 1, refused),
      (LockFile 7 PENDING_BYTE 1, refused), (Sleep 1, refused)]"
  by (simp add: eval_nat_numeral failed_try_def pending_try_def busy_host_def refusing_def
                Let_def)

theorem pending_prelock_witness:
  "locktype (file_at NO_LOCK) < SHARED_LOCK \<and>
   locktype (file_at NO_LOCK) = NO_LOCK \<and>
   sqlite3OsLock busy_host world0 (file_at NO_LOCK) SHARED_LOCK =
     (SQLITE_BUSY, file_at NO_LOCK,
      \<lparr>trace = [(LockFile 7 PENDING_BYTE 1, refused), (Sleep 1, refused),
                (LockFile 7 PENDING_BYTE 1, refused), (Sleep 1, refused),
                (LockFile 7 PENDING_BYTE 1, refused), (Sleep 1, refused),
                (LockFile 7 PENDING_BYTE 1, refused), (Sleep 1, refused)],
       osType = 0\<rparr>)"
proof -
  have up: "locktype (file_at NO_LOCK) < SHARED_LOCK"
    by (simp add: file_at_def lock_levels)
  have gate: "locktype (file_at NO_LOCK) = NO_LOCK \<or> SHARED_LOCK = PENDING_LOCK"
    by (simp add: file_at_def)
  obtain rc fd' w' where
    run: "sqlite3OsLock busy_host world0 (file_at NO_LOCK) SHARED_LOCK = (rc, fd', w')"
    by (cases "sqlite3OsLock busy_host world0 (file_at NO_LOCK) SHARED_LOCK") auto
  have fails: "ret (answer busy_host t c) = 0" for t c
    by (simp add: busy_host_def refusing_def refused_def)
  have "rc = SQLITE_BUSY \<and> fd' = file_at NO_LOCK \<and>
        w' = world0\<lparr>trace := (failed_try busy_host (h (file_at NO_LOCK)) ^^ 4) (trace world0)\<rparr>"
    using pending_prelock [OF up gate run] fails by blast
  then show ?thesis
    using run up four_failed_tries by (simp add: file_at_def world0_def)
qed

end
